theory Spec2Isabelle
  imports Main
begin

section \<open>Strings\<close>

text \<open>
  A JavaScript string is a sequence of 16-bit code units. The model uses \<^typ>\<open>string\<close>,
  whose characters are 8-bit: it covers the strings all of whose code units are below 256
  (ASCII and Latin-1), and case mapping, white space and the character classes of the
  regular expressions are the ECMAScript ones restricted to that range.

  Numbers: line numbers and counts are \<^typ>\<open>int\<close> and \<^typ>\<open>nat\<close>. The program's numbers
  are IEEE doubles, which are exact on integers below \<open>2^53\<close>; the model is the program
  as long as line numbers stay below that bound.
\<close>

definition code :: "char \<Rightarrow> nat" where
  "code c = of_char c"

definition is_digit :: "char \<Rightarrow> bool" where
  "is_digit c = (48 \<le> code c \<and> code c \<le> 57)"

definition is_upper :: "char \<Rightarrow> bool" where
  "is_upper c = (65 \<le> code c \<and> code c \<le> 90)"

definition is_lower :: "char \<Rightarrow> bool" where
  "is_lower c = (97 \<le> code c \<and> code c \<le> 122)"

text \<open>\<open>\w\<close>: \<open>[A-Za-z0-9_]\<close>.\<close>

definition is_word :: "char \<Rightarrow> bool" where
  "is_word c = (is_upper c \<or> is_lower c \<or> is_digit c \<or> c = CHR ''_'')"

text \<open>\<open>\s\<close> and the characters removed by \<open>trim\<close>: TAB, LF, VT, FF, CR, space, NBSP.\<close>

definition is_space :: "char \<Rightarrow> bool" where
  "is_space c = (code c \<in> {9, 10, 11, 12, 13, 32, 160})"

text \<open>The line terminators that \<open>.\<close> does not match: LF and CR.\<close>

definition is_line_terminator :: "char \<Rightarrow> bool" where
  "is_line_terminator c = (code c \<in> {10, 13})"

text \<open>
  \<open>toLowerCase\<close> of one code unit, and the case folding of the matcher under the \<open>i\<close>
  flag (\<open>toUpperCase\<close> of one code unit), within Latin-1. The letters U+00B5 and
  U+00FF, whose capitals are outside the range, and U+00DF, whose capital is two code
  units, fold to themselves here: no other code unit of the range folds to the same
  value, and the matcher only compares folded code units for equality.
\<close>

definition to_lower :: "char \<Rightarrow> char" where
  "to_lower c =
     (if is_upper c \<or> (192 \<le> code c \<and> code c \<le> 222 \<and> code c \<noteq> 215)
      then char_of (code c + 32) else c)"

definition to_upper :: "char \<Rightarrow> char" where
  "to_upper c =
     (if is_lower c \<or> (224 \<le> code c \<and> code c \<le> 254 \<and> code c \<noteq> 247)
      then char_of (code c - 32) else c)"

definition toLowerCase :: "string \<Rightarrow> string" where
  "toLowerCase s = map to_lower s"

text \<open>\<open>s.startsWith(t)\<close>, \<open>s.endsWith(t)\<close>, \<open>s.includes(t)\<close>.\<close>

definition startsWith :: "string \<Rightarrow> string \<Rightarrow> bool" where
  "startsWith s t = (take (length t) s = t)"

definition endsWith :: "string \<Rightarrow> string \<Rightarrow> bool" where
  "endsWith s t = (length t \<le> length s \<and> drop (length s - length t) s = t)"

fun includes_str :: "string \<Rightarrow> string \<Rightarrow> bool" where
  "includes_str [] t = (t = [])"
| "includes_str (c # cs) t = (startsWith (c # cs) t \<or> includes_str cs t)"

text \<open>\<open>s.trim()\<close>.\<close>

definition trim :: "string \<Rightarrow> string" where
  "trim s = rev (dropWhile is_space (rev (dropWhile is_space s)))"

text \<open>
  \<open>s.split(sep)\<close> for a separator of one character: the result is never empty, and
  the empty string splits into one empty piece.
\<close>

fun split :: "char \<Rightarrow> string \<Rightarrow> string list" where
  "split sep [] = [[]]"
| "split sep (c # cs) =
     (if c = sep then [] # split sep cs
      else (case split sep cs of
              [] \<Rightarrow> [[c]]
            | p # ps \<Rightarrow> (c # p) # ps))"

text \<open>\<open>xs.pop()\<close> on the result of \<open>split\<close>, \<open>undefined\<close> on the empty array.\<close>

definition pop :: "'a list \<Rightarrow> 'a option" where
  "pop xs = (if xs = [] then None else Some (last xs))"

text \<open>\<open>xs[i]\<close>: \<open>undefined\<close> (absent) out of range.\<close>

definition at_index :: "'a list \<Rightarrow> nat \<Rightarrow> 'a option" where
  "at_index xs i = (if i < length xs then Some (xs ! i) else None)"

text \<open>\<open>parseInt(s, 10)\<close> on a string of decimal digits.\<close>

definition digit_val :: "char \<Rightarrow> int" where
  "digit_val c = int (code c) - 48"

definition parseInt :: "string \<Rightarrow> int" where
  "parseInt s = foldl (\<lambda>n c. 10 * n + digit_val c) 0 (takeWhile is_digit s)"

section \<open>Regular expressions\<close>

text \<open>
  The regular expressions of the program are kept as syntax trees and run by a
  backtracking matcher that returns the successful matches in the order in which the
  ECMAScript matcher tries them: the left alternative before the right, a greedy
  quantifier with more repetitions first. Every quantifier of the program's patterns is
  applied to a single character class, except \<open>(?:...)?\<close>, which is \<open>Alt r Eps\<close>.

  A matcher state is the code unit before the current position (for \<open>^\<close> and \<open>\b\<close>),
  the remaining input, and the texts of the capture groups closed so far. No group of
  the program's patterns is nested in another or is under a quantifier, so the order of
  closing is the group number.
\<close>

datatype rx =
    Eps
  | Chr "char \<Rightarrow> bool"
  | Seq rx rx
  | Alt rx rx
  | Rep "char \<Rightarrow> bool" nat "nat option"
  | Grp rx
  | Bol
  | Eol
  | Wordb
  | Nomatch

type_synonym mstate = "char option \<times> string \<times> string list"

definition word_before :: "char option \<Rightarrow> bool" where
  "word_before p = (case p of None \<Rightarrow> False | Some c \<Rightarrow> is_word c)"

definition word_after :: "string \<Rightarrow> bool" where
  "word_after s = (case s of [] \<Rightarrow> False | c # _ \<Rightarrow> is_word c)"

text \<open>
  The states after a greedy repetition of a character class, between \<open>lo\<close> and \<open>hi\<close>
  times: the longest first.
\<close>

definition rep_states :: "(char \<Rightarrow> bool) \<Rightarrow> nat \<Rightarrow> nat option \<Rightarrow> mstate \<Rightarrow> mstate list" where
  "rep_states P lo hi st =
     (case st of (p, s, g) \<Rightarrow>
        (let run = length (takeWhile P s);
             top = (case hi of None \<Rightarrow> run | Some h \<Rightarrow> min h run)
         in map (\<lambda>k. (if k = 0 then p else Some (s ! (k - 1)), drop k s, g))
                (rev [lo ..< Suc top])))"

fun ms :: "rx \<Rightarrow> mstate \<Rightarrow> mstate list" where
  "ms Eps st = [st]"
| "ms (Chr P) st =
     (case st of (p, s, g) \<Rightarrow>
        (case s of [] \<Rightarrow> [] | c # cs \<Rightarrow> if P c then [(Some c, cs, g)] else []))"
| "ms (Seq a b) st = concat (map (ms b) (ms a st))"
| "ms (Alt a b) st = ms a st @ ms b st"
| "ms (Rep P lo hi) st = rep_states P lo hi st"
| "ms (Grp a) st =
     (case st of (p, s, g) \<Rightarrow>
        map (\<lambda>(p', s', g'). (p', s', g' @ [take (length s - length s') s])) (ms a st))"
| "ms Bol st = (case st of (p, s, g) \<Rightarrow> if p = None then [st] else [])"
| "ms Eol st = (case st of (p, s, g) \<Rightarrow> if s = [] then [st] else [])"
| "ms Wordb st =
     (case st of (p, s, g) \<Rightarrow> if word_before p \<noteq> word_after s then [st] else [])"
| "ms Nomatch st = []"

text \<open>A literal string, and a literal string under the \<open>i\<close> flag.\<close>

fun lit :: "string \<Rightarrow> rx" where
  "lit [] = Eps"
| "lit (c # cs) = Seq (Chr (\<lambda>x. x = c)) (lit cs)"

fun liti :: "string \<Rightarrow> rx" where
  "liti [] = Eps"
| "liti (c # cs) = Seq (Chr (\<lambda>x. to_upper x = to_upper c)) (liti cs)"

fun seqs :: "rx list \<Rightarrow> rx" where
  "seqs [] = Eps"
| "seqs (r # rs) = Seq r (seqs rs)"

text \<open>\<open>r1|r2|...|rn\<close>, closed by the pattern that never matches.\<close>

fun alts :: "rx list \<Rightarrow> rx" where
  "alts [] = Nomatch"
| "alts (r # rs) = Alt r (alts rs)"

text \<open>
  \<open>RegExp.prototype.exec\<close> without the \<open>g\<close> flag: the first start position, from the
  left, at which the pattern matches, and there the first match in the matcher's order.
\<close>

record rmatch =
  before :: string
  matched :: string
  after :: string
  groups :: "string list"

fun exec_at :: "rx \<Rightarrow> string \<Rightarrow> char option \<Rightarrow> string \<Rightarrow> rmatch option" where
  "exec_at r pre p [] =
     (case ms r (p, [], []) of
        [] \<Rightarrow> None
      | (p', s', g) # _ \<Rightarrow> Some \<lparr>before = pre, matched = [], after = [], groups = g\<rparr>)"
| "exec_at r pre p (c # cs) =
     (case ms r (p, c # cs, []) of
        [] \<Rightarrow> exec_at r (pre @ [c]) (Some c) cs
      | (p', s', g) # _ \<Rightarrow>
          Some \<lparr>before = pre, matched = take (length (c # cs) - length s') (c # cs),
                after = s', groups = g\<rparr>)"

definition exec :: "rx \<Rightarrow> string \<Rightarrow> rmatch option" where
  "exec r s = exec_at r [] None s"

text \<open>\<open>r.test(s)\<close>.\<close>

definition test :: "rx \<Rightarrow> string \<Rightarrow> bool" where
  "test r s = (exec r s \<noteq> None)"

section \<open>Replacement and global matching\<close>

text \<open>
  \<open>GetSubstitution\<close>: the replacement template of \<open>String.prototype.replace\<close>, with
  \<open>$$\<close>, \<open>$&\<close>, \<open>$`\<close>, \<open>$'\<close> and the group references \<open>$n\<close>, \<open>$nn\<close> (two digits are
  tried first; a reference to a group that the pattern does not have stays as text).
\<close>

definition group_ref :: "rmatch \<Rightarrow> string \<Rightarrow> string option" where
  "group_ref m ds =
     (let i = nat (parseInt ds)
      in if 1 \<le> i \<and> i \<le> length (groups m) then Some (groups m ! (i - 1)) else None)"

fun getSubstitution :: "rmatch \<Rightarrow> string \<Rightarrow> string" where
  "getSubstitution m [] = []"
| "getSubstitution m [c] = [c]"
| "getSubstitution m (c # d # t) =
     (if c \<noteq> CHR ''$'' then c # getSubstitution m (d # t)
      else if d = CHR ''$'' then CHR ''$'' # getSubstitution m t
      else if d = CHR ''&'' then matched m @ getSubstitution m t
      else if d = CHR ''`'' then before m @ getSubstitution m t
      else if d = CHR 0x27 then after m @ getSubstitution m t
      else if is_digit d then
        (case t of
           [] \<Rightarrow> (case group_ref m [d] of Some g \<Rightarrow> g | None \<Rightarrow> [c, d])
         | e # t' \<Rightarrow>
             if is_digit e \<and> nat (parseInt [d, e]) \<le> length (groups m)
             then (case group_ref m [d, e] of
                     Some g \<Rightarrow> g @ getSubstitution m t'
                   | None \<Rightarrow> c # d # e # getSubstitution m t')
             else (case group_ref m [d] of
                     Some g \<Rightarrow> g @ getSubstitution m (e # t')
                   | None \<Rightarrow> c # d # getSubstitution m (e # t')))
      else c # getSubstitution m (d # t))"

text \<open>\<open>s.replace(r, template)\<close> for a pattern without the \<open>g\<close> flag.\<close>

definition replace_rx :: "string \<Rightarrow> rx \<Rightarrow> string \<Rightarrow> string" where
  "replace_rx s r template =
     (case exec r s of
        None \<Rightarrow> s
      | Some m \<Rightarrow> before m @ getSubstitution m template @ after m)"

text \<open>\<open>s.replace(pattern, template)\<close> for a string pattern: its first occurrence.\<close>

fun find_str :: "string \<Rightarrow> string \<Rightarrow> string \<Rightarrow> rmatch option" where
  "find_str pre pat [] =
     (if pat = [] then Some \<lparr>before = pre, matched = [], after = [], groups = []\<rparr> else None)"
| "find_str pre pat (c # cs) =
     (if startsWith (c # cs) pat
      then Some \<lparr>before = pre, matched = pat, after = drop (length pat) (c # cs), groups = []\<rparr>
      else find_str (pre @ [c]) pat cs)"

definition replace_str :: "string \<Rightarrow> string \<Rightarrow> string \<Rightarrow> string" where
  "replace_str s pat template =
     (case find_str [] pat s of
        None \<Rightarrow> s
      | Some m \<Rightarrow> before m @ getSubstitution m template @ after m)"

text \<open>
  The number of matches of \<open>s.match(r)\<close> for a pattern with the \<open>g\<close> flag: the search
  resumes where the last match ended, one position further after an empty match.
\<close>

fun count_matches :: "rx \<Rightarrow> char option \<Rightarrow> string \<Rightarrow> nat" where
  "count_matches r p [] = (case ms r (p, [], []) of [] \<Rightarrow> 0 | _ # _ \<Rightarrow> 1)"
| "count_matches r p (c # cs) =
     (case ms r (p, c # cs, []) of
        [] \<Rightarrow> count_matches r (Some c) cs
      | (p', s', g) # _ \<Rightarrow>
          if length s' \<le> length cs then Suc (count_matches r p' s')
          else Suc (count_matches r (Some c) cs))"

section \<open>Diff extraction (gitDiff.ts, cli.ts)\<close>

text \<open>The hunk header: \<open>/^@@ -\d+(?:,\d+)? \+(\d+)(?:,\d+)? @@/\<close>.\<close>

definition HUNK_HEADER :: rx where
  "HUNK_HEADER =
     seqs [Bol, lit ''@@ -'', Rep is_digit 1 None,
           Alt (Seq (Chr (\<lambda>x. x = CHR '','')) (Rep is_digit 1 None)) Eps,
           lit '' +'', Grp (Rep is_digit 1 None),
           Alt (Seq (Chr (\<lambda>x. x = CHR '','')) (Rep is_digit 1 None)) Eps,
           lit '' @@'']"

text \<open>\<open>line.match(...)\<close> followed by \<open>parseInt(hunkMatch[1], 10)\<close>.\<close>

definition hunkMatch :: "string \<Rightarrow> int option" where
  "hunkMatch line =
     (case exec HUNK_HEADER line of
        None \<Rightarrow> None
      | Some m \<Rightarrow> Some (parseInt (groups m ! 0)))"

record ParsedDiff =
  addedLines :: "string list"
  addedLineNumbers :: "int list"
  isNewFile :: bool

text \<open>The state of the scanning loop: the three results and \<open>currentNewLine\<close>.\<close>

record scan_state = ParsedDiff +
  currentNewLine :: int

definition scan_init :: scan_state where
  "scan_init = \<lparr>addedLines = [], addedLineNumbers = [], isNewFile = False,
                 currentNewLine = 0\<rparr>"

text \<open>
  The body of the loop of \<open>parseDiffOutput\<close> (gitDiff.ts). The new-file test does not
  end the iteration: the line goes on to the tests that follow.
\<close>

definition parseDiffOutput_step :: "scan_state \<Rightarrow> string \<Rightarrow> scan_state" where
  "parseDiffOutput_step st line =
     (let st1 = (if startsWith line ''new file mode'' then st\<lparr>isNewFile := True\<rparr> else st)
      in case hunkMatch line of
           Some n \<Rightarrow> st1\<lparr>currentNewLine := n\<rparr>
         | None \<Rightarrow>
             if startsWith line ''+'' \<and> \<not> startsWith line ''+++''
             then st1\<lparr>addedLines := addedLines st1 @ [drop 1 line],
                      addedLineNumbers := addedLineNumbers st1 @ [currentNewLine st1],
                      currentNewLine := currentNewLine st1 + 1\<rparr>
             else if startsWith line '' ''
             then st1\<lparr>currentNewLine := currentNewLine st1 + 1\<rparr>
             else st1)"

definition parseDiffOutput :: "string \<Rightarrow> ParsedDiff" where
  "parseDiffOutput diff =
     (let st = foldl parseDiffOutput_step scan_init (split CHR 0x0A diff)
      in \<lparr>addedLines = addedLines st, addedLineNumbers = addedLineNumbers st,
          isNewFile = isNewFile st\<rparr>)"

text \<open>
  The body of the loop of \<open>parseDiff\<close> (cli.ts): here the new-file line ends the
  iteration (\<open>continue\<close>).
\<close>

definition parseDiff_step :: "scan_state \<Rightarrow> string \<Rightarrow> scan_state" where
  "parseDiff_step st line =
     (if startsWith line ''new file mode'' then st\<lparr>isNewFile := True\<rparr>
      else case hunkMatch line of
             Some n \<Rightarrow> st\<lparr>currentNewLine := n\<rparr>
           | None \<Rightarrow>
               if startsWith line ''+'' \<and> \<not> startsWith line ''+++''
               then st\<lparr>addedLines := addedLines st @ [drop 1 line],
                       addedLineNumbers := addedLineNumbers st @ [currentNewLine st],
                       currentNewLine := currentNewLine st + 1\<rparr>
               else if startsWith line '' ''
               then st\<lparr>currentNewLine := currentNewLine st + 1\<rparr>
               else st)"

definition parseDiff :: "string \<Rightarrow> ParsedDiff" where
  "parseDiff diff =
     (let st = foldl parseDiff_step scan_init (split CHR 0x0A diff)
      in \<lparr>addedLines = addedLines st, addedLineNumbers = addedLineNumbers st,
          isNewFile = isNewFile st\<rparr>)"

text \<open>\<open>lines.join('\n')\<close>.\<close>

fun joinLines :: "string list \<Rightarrow> string" where
  "joinLines [] = []"
| "joinLines [l] = l"
| "joinLines (l # ls) = l @ CHR 0x0A # joinLines ls"

section \<open>The checks (checks.ts)\<close>

datatype severity = Error | Warning | Info

record CheckResult =
  rule :: string
  severity :: severity
  message :: string
  line :: "int option"
  file' :: "string option"

record FileChanges = ParsedDiff +
  filename :: string
  sizeBytes :: nat

text \<open>A number in a template literal: its decimal digits.\<close>

fun show_nat :: "nat \<Rightarrow> string" where
  "show_nat n =
     (if n < 10 then [char_of (48 + n)]
      else show_nat (n div 10) @ [char_of (48 + n mod 10)])"

text \<open>
  The dash of two of the messages is U+2014, outside the range of the model's
  characters: it is written as the three bytes of its UTF-8 form.
\<close>

definition em_dash :: string where
  "em_dash = [CHR 0xE2, CHR 0x80, CHR 0x94]"

subsection \<open>Debug statements\<close>

definition DEBUG_PATTERNS :: "rx list" where
  "DEBUG_PATTERNS =
    [seqs [Wordb, lit ''console.'',
           Grp (alts [lit ''log'', lit ''debug'', lit ''warn'', lit ''error'', lit ''trace'',
                      lit ''dir'', lit ''table'']),
           Rep is_space 0 None, Chr (\<lambda>x. x = CHR ''('')],
     seqs [Wordb, lit ''debugger'', Wordb],
     seqs [Wordb, lit ''print'', Rep is_space 0 None, Chr (\<lambda>x. x = CHR ''('')],
     seqs [Wordb, lit ''puts'', Chr is_space],
     seqs [Wordb, lit ''fmt.Print''],
     seqs [Wordb, lit ''println!'', Rep is_space 0 None, Chr (\<lambda>x. x = CHR ''('')],
     seqs [Wordb, lit ''var_dump'', Rep is_space 0 None, Chr (\<lambda>x. x = CHR ''('')],
     seqs [Wordb, lit ''dd'', Rep is_space 0 None, Chr (\<lambda>x. x = CHR ''('')]]"

text \<open>
  The inner loop over the patterns: the first pattern that matches pushes the result
  made by \<open>mk\<close> and ends the loop (\<open>break\<close>).
\<close>

fun first_pattern :: "rx list \<Rightarrow> string \<Rightarrow> 'a \<Rightarrow> 'a list" where
  "first_pattern [] l r = []"
| "first_pattern (pat # pats) l r = (if test pat l then [r] else first_pattern pats l r)"

text \<open>
  \<open>addedLines.forEach((line, idx) => ...)\<close>: the callback is run on every line with
  its index, and what it pushes is appended to the results.
\<close>

fun forEach_idx :: "(string \<Rightarrow> nat \<Rightarrow> 'a list) \<Rightarrow> nat \<Rightarrow> string list \<Rightarrow> 'a list" where
  "forEach_idx f idx [] = []"
| "forEach_idx f idx (l # ls) = f l idx @ forEach_idx f (Suc idx) ls"

definition debug_line :: "'a FileChanges_scheme \<Rightarrow> string \<Rightarrow> nat \<Rightarrow> CheckResult list" where
  "debug_line changes l idx =
     (let trimmed = trim l
      in if startsWith trimmed ''//'' \<or> startsWith trimmed ''#'' \<or> startsWith trimmed ''*''
         then []
         else first_pattern DEBUG_PATTERNS l
                \<lparr>rule = ''no-debug-statements'', severity = Error,
                 message = ''Debug statement found: '' @ trim l,
                 line = at_index (addedLineNumbers changes) idx,
                 file' = Some (filename changes)\<rparr>)"

definition checkDebugStatements :: "'a FileChanges_scheme \<Rightarrow> CheckResult list" where
  "checkDebugStatements changes = forEach_idx (debug_line changes) 0 (addedLines changes)"

subsection \<open>TODO markers\<close>

text \<open>\<open>/\b(TODO|FIXME|HACK|XXX|TEMP|WTF|BUG)[\s:]/i\<close>\<close>

definition TODO_WORDS :: "string list" where
  "TODO_WORDS = [''TODO'', ''FIXME'', ''HACK'', ''XXX'', ''TEMP'', ''WTF'', ''BUG'']"

definition TODO_PATTERN :: rx where
  "TODO_PATTERN =
     seqs [Wordb, Grp (alts (map liti TODO_WORDS)), Chr (\<lambda>x. is_space x \<or> x = CHR '':'')]"

definition todo_line :: "'a FileChanges_scheme \<Rightarrow> string \<Rightarrow> nat \<Rightarrow> CheckResult list" where
  "todo_line changes l idx =
     (if test TODO_PATTERN l
      then [\<lparr>rule = ''no-todo-in-changes'', severity = Warning,
             message = ''Unresolved marker in new code: '' @ trim l,
             line = at_index (addedLineNumbers changes) idx,
             file' = Some (filename changes)\<rparr>]
      else [])"

definition checkTodos :: "'a FileChanges_scheme \<Rightarrow> CheckResult list" where
  "checkTodos changes = forEach_idx (todo_line changes) 0 (addedLines changes)"

subsection \<open>Secrets\<close>

definition is_quote :: "char \<Rightarrow> bool" where
  "is_quote c = (c = CHR 0x27 \<or> c = CHR 0x22)"

definition is_alnum :: "char \<Rightarrow> bool" where
  "is_alnum c = (is_upper c \<or> is_lower c \<or> is_digit c)"

definition assignment_of :: "rx \<Rightarrow> nat \<Rightarrow> rx" where
  "assignment_of name n =
     seqs [name, Rep is_space 0 None, Chr (\<lambda>x. x = CHR '':'' \<or> x = CHR ''=''),
           Rep is_space 0 None, Chr is_quote, Rep (\<lambda>x. \<not> is_quote x) n None, Chr is_quote]"

definition SECRET_PATTERNS :: "(rx \<times> string) list" where
  "SECRET_PATTERNS =
    [(seqs [Chr is_quote,
            Rep (\<lambda>x. is_alnum x \<or> x = CHR ''+'' \<or> x = CHR ''/'') 40 None,
            Chr is_quote],
      ''long base64-like string''),
     (assignment_of
        (Alt (seqs [liti ''api'', Rep (\<lambda>x. x = CHR ''_'' \<or> x = CHR ''-'') 0 (Some 1),
                    liti ''key''])
             (liti ''apikey'')) 8,
      ''API key''),
     (assignment_of
        (alts [liti ''secret'', liti ''password'', liti ''passwd'', liti ''pwd'']) 4,
      ''credential''),
     (seqs [Alt (lit ''AKIA'') (lit ''ASIA''),
            Rep (\<lambda>x. is_upper x \<or> is_digit x) 16 (Some 16)],
      ''AWS access key''),
     (seqs [lit ''ghp_'', Rep is_alnum 36 (Some 36)], ''GitHub personal access token''),
     (seqs [lit ''sk-'', Rep is_alnum 48 (Some 48)], ''OpenAI API key''),
     (seqs [lit ''xox'', Chr (\<lambda>x. x \<in> set ''baprs''), Chr (\<lambda>x. x = CHR ''-''),
            Rep (\<lambda>x. is_alnum x \<or> x = CHR ''-'') 10 None],
      ''Slack token'')]"

fun first_secret :: "(rx \<times> string) list \<Rightarrow> string \<Rightarrow> (string \<Rightarrow> 'a) \<Rightarrow> 'a list" where
  "first_secret [] l mk = []"
| "first_secret ((pat, label) # pats) l mk =
     (if test pat l then [mk label] else first_secret pats l mk)"

definition secret_line :: "'a FileChanges_scheme \<Rightarrow> string \<Rightarrow> nat \<Rightarrow> CheckResult list" where
  "secret_line changes l idx =
     (let trimmed = trim l
      in if startsWith trimmed ''//'' \<or> startsWith trimmed ''#''
         then []
         else first_secret SECRET_PATTERNS l
                (\<lambda>label. \<lparr>rule = ''no-secrets'', severity = Error,
                          message = ''Possible '' @ label @ '' detected'',
                          line = at_index (addedLineNumbers changes) idx,
                          file' = Some (filename changes)\<rparr>))"

definition checkSecrets :: "'a FileChanges_scheme \<Rightarrow> CheckResult list" where
  "checkSecrets changes =
     (let lowerName = toLowerCase (filename changes)
      in if includes_str lowerName ''test'' \<or> includes_str lowerName ''spec'' \<or>
            includes_str lowerName ''mock'' \<or> includes_str lowerName ''fixture'' \<or>
            includes_str lowerName ''example'' \<or> includes_str lowerName ''.env.sample'' \<or>
            endsWith lowerName ''.md''
         then []
         else forEach_idx (secret_line changes) 0 (addedLines changes))"

subsection \<open>Large files\<close>

definition LARGE_FILE_THRESHOLD :: nat where
  "LARGE_FILE_THRESHOLD = 500 * 1024"

text \<open>\<open>(sizeBytes / 1024).toFixed(0)\<close>: the nearest integer, the larger one at a tie.\<close>

definition checkLargeFile :: "'a FileChanges_scheme \<Rightarrow> CheckResult list" where
  "checkLargeFile changes =
     (if sizeBytes changes > LARGE_FILE_THRESHOLD
      then [\<lparr>rule = ''no-large-files'', severity = Warning,
             message = ''File is '' @ show_nat ((2 * sizeBytes changes + 1024) div 2048) @
                       '' KB '' @ em_dash @ '' is this intentional?'',
             line = None, file' = Some (filename changes)\<rparr>]
      else [])"


subsection \<open>Test coverage heuristic\<close>

definition SOURCE_EXTENSIONS :: "string set" where
  "SOURCE_EXTENSIONS = {''.ts'', ''.tsx'', ''.js'', ''.jsx'', ''.py'', ''.rb'', ''.go'', ''.java''}"

text \<open>\<open>(ts|tsx|js|jsx)\<close>\<close>

definition JS_EXT :: rx where
  "JS_EXT = alts [lit ''ts'', lit ''tsx'', lit ''js'', lit ''jsx'']"

text \<open>\<open>/\.(ts|tsx|js|jsx)$/\<close>\<close>

definition JS_EXT_END :: rx where
  "JS_EXT_END = seqs [Chr (\<lambda>x. x = CHR ''.''), Grp JS_EXT, Eol]"

definition TEST_NAMING_CONVENTIONS :: "(string \<Rightarrow> string) list" where
  "TEST_NAMING_CONVENTIONS =
    [\<lambda>f. replace_rx f JS_EXT_END ''.test.$1'',
     \<lambda>f. replace_rx f JS_EXT_END ''.spec.$1'',
     \<lambda>f. replace_rx (replace_str f ''/src/'' ''/tests/'') JS_EXT_END ''.test.$1'',
     \<lambda>f. replace_rx (replace_str f ''/src/'' ''/test/'') JS_EXT_END ''.test.$1'',
     \<lambda>f. (let r = replace_rx f (seqs [Chr (\<lambda>x. x = CHR ''.''), Grp (lit ''py''), Eol]) ''_test.$1''
          in if r \<noteq> f then r else []),
     \<lambda>f. (let base = replace_rx f (seqs [Rep (\<lambda>x. \<not> is_line_terminator x) 0 None,
                                         Chr (\<lambda>x. x = CHR ''/'')]) []
          in replace_str f base (''test_'' @ base))]"

text \<open>\<open>xs.pop()\<close> inside a string concatenation or before \<open>??\<close>.\<close>

definition pop_or :: "string \<Rightarrow> string list \<Rightarrow> string" where
  "pop_or d xs = (case pop xs of None \<Rightarrow> d | Some x \<Rightarrow> x)"

definition checkTestExists :: "'a FileChanges_scheme \<Rightarrow> string set \<Rightarrow> CheckResult list" where
  "checkTestExists changes allProjectFiles =
     (let ext = ''.'' @ pop_or ''undefined'' (split CHR ''.'' (filename changes))
      in if ext \<notin> SOURCE_EXTENSIONS then []
         else if test (seqs [Chr (\<lambda>x. x = CHR ''.''), Grp (Alt (lit ''test'') (lit ''spec'')),
                             Chr (\<lambda>x. x = CHR ''.''), Grp JS_EXT, Eol]) (filename changes)
         then []
         else if test (seqs [lit ''test_'', Rep is_word 1 None, lit ''.py'', Eol]) (filename changes)
         then []
         else if includes_str (filename changes) ''__tests__'' then []
         else
           (let base = pop_or [] (split CHR ''/'' (filename changes))
            in if test (seqs [Bol,
                              Grp (alts [lit ''index'', lit ''types'', lit ''constants'',
                                         lit ''config'', lit ''main'', lit ''app'']),
                              Chr (\<lambda>x. x = CHR ''.''), Grp JS_EXT, Eol]) base
               then []
               else
                 (let hasTest = list_ex (\<lambda>fn. fn (filename changes) \<in> allProjectFiles)
                                        TEST_NAMING_CONVENTIONS
                  in if \<not> hasTest
                     then [\<lparr>rule = ''test-file-exists'', severity = Info,
                            message = ''No test file found for '' @ base,
                            line = None, file' = Some (filename changes)\<rparr>]
                     else [])))"

subsection \<open>Apparent complexity\<close>

text \<open>\<open>/\b(if|else if|while|for|case|catch|\?\s*[^:]+:|\&\&|\|\|)\b/g\<close>\<close>

definition BRANCH_KEYWORDS :: rx where
  "BRANCH_KEYWORDS =
     seqs [Wordb,
           Grp (alts [lit ''if'', lit ''else if'', lit ''while'', lit ''for'', lit ''case'',
                      lit ''catch'',
                      seqs [Chr (\<lambda>x. x = CHR ''?''), Rep is_space 0 None,
                            Rep (\<lambda>x. x \<noteq> CHR '':'') 1 None, Chr (\<lambda>x. x = CHR '':'')],
                      lit ''&&'', lit ''||'']),
           Wordb]"

definition checkComplexity :: "'a FileChanges_scheme \<Rightarrow> int \<Rightarrow> CheckResult list" where
  "checkComplexity changes threshold =
     (let ext = ''.'' @ pop_or ''undefined'' (split CHR ''.'' (filename changes))
      in if ext \<notin> set [''.ts'', ''.tsx'', ''.js'', ''.jsx''] then []
         else if length (addedLines changes) < 20 then []
         else
           (let fullText = joinLines (addedLines changes);
                approxCC = count_matches BRANCH_KEYWORDS None fullText + 1
            in if int approxCC > threshold
               then [\<lparr>rule = ''complexity-threshold'', severity = Warning,
                      message = ''New code has high apparent complexity (~'' @ show_nat approxCC @
                                '' branches) '' @ em_dash @ '' consider breaking it up'',
                      line = None, file' = Some (filename changes)\<rparr>]
               else []))"

section \<open>Collecting and ordering the results (cli.ts)\<close>

record config =
  noDebugStatements :: bool
  noTodoInChanges :: bool
  noSecrets :: bool
  noLargeFiles :: bool
  testCoverage :: bool
  complexity :: bool
  complexityThreshold :: int

definition checks_of_file :: "config \<Rightarrow> string set \<Rightarrow> 'a FileChanges_scheme \<Rightarrow> CheckResult list" where
  "checks_of_file cfg allProjectFiles f =
     (if noDebugStatements cfg then checkDebugStatements f else []) @
     (if noTodoInChanges cfg then checkTodos f else []) @
     (if noSecrets cfg then checkSecrets f else []) @
     (if noLargeFiles cfg then checkLargeFile f else []) @
     (if testCoverage cfg then checkTestExists f allProjectFiles else []) @
     (if complexity cfg then checkComplexity f (complexityThreshold cfg) else [])"

text \<open>\<open>const order = { error: 0, warning: 1, info: 2 }\<close>\<close>

fun order :: "severity \<Rightarrow> int" where
  "order Error = 0"
| "order Warning = 1"
| "order Info = 2"

definition compareFn :: "CheckResult \<Rightarrow> CheckResult \<Rightarrow> int" where
  "compareFn a b = order (severity a) - order (severity b)"

text \<open>
  \<open>Array.prototype.sort(compareFn)\<close>. ECMAScript (since the 2019 edition) requires
  the sort to be stable; it is modelled as the insertion sort that puts an element
  behind every element that does not compare greater.
\<close>

fun insert_sorted :: "('a \<Rightarrow> 'a \<Rightarrow> int) \<Rightarrow> 'a \<Rightarrow> 'a list \<Rightarrow> 'a list" where
  "insert_sorted cmp x [] = [x]"
| "insert_sorted cmp x (y # ys) =
     (if cmp y x \<le> 0 then y # insert_sorted cmp x ys else x # y # ys)"

definition array_sort :: "('a \<Rightarrow> 'a \<Rightarrow> int) \<Rightarrow> 'a list \<Rightarrow> 'a list" where
  "array_sort cmp xs = foldl (\<lambda>acc x. insert_sorted cmp x acc) [] xs"

definition sorted_results :: "config \<Rightarrow> string set \<Rightarrow> 'a FileChanges_scheme list \<Rightarrow> CheckResult list" where
  "sorted_results cfg allProjectFiles changedFiles =
     array_sort compareFn (concat (map (checks_of_file cfg allProjectFiles) changedFiles))"

section \<open>Predicates of the specification\<close>

text \<open>
  What \<open>checkDebugStatements\<close> flags and what it reports, in the words of the rule:
  a line is flagged when its trimmed form does not start with a comment marker and some
  debug pattern matches it; the finding of the line at index \<open>i\<close> is an error with the
  line number of the same index.
\<close>

definition debug_flagged :: "string \<Rightarrow> bool" where
  "debug_flagged l =
     (\<not> (startsWith (trim l) ''//'' \<or> startsWith (trim l) ''#'' \<or> startsWith (trim l) ''*'') \<and>
      (\<exists>pat \<in> set DEBUG_PATTERNS. test pat l))"

definition debug_finding :: "'a FileChanges_scheme \<Rightarrow> nat \<Rightarrow> CheckResult" where
  "debug_finding changes i =
     \<lparr>rule = ''no-debug-statements'', severity = Error,
      message = ''Debug statement found: '' @ trim (addedLines changes ! i),
      line = at_index (addedLineNumbers changes) i,
      file' = Some (filename changes)\<rparr>"

text \<open>
  The trigger of \<open>no-todo-in-changes\<close> in the words of the rule: the line contains a
  marker word, in any letter case, that starts at a word boundary (at the start of the
  line or after a character that is no word character) and is immediately followed by
  white space or a colon.
\<close>

definition has_todo_marker :: "string \<Rightarrow> bool" where
  "has_todo_marker l =
     (\<exists>pre w sep post.
        l = pre @ w @ sep # post \<and> map to_upper w \<in> set TODO_WORDS \<and>
        (is_space sep \<or> sep = CHR '':'') \<and> (pre = [] \<or> \<not> is_word (last pre)))"

definition todo_finding :: "'a FileChanges_scheme \<Rightarrow> nat \<Rightarrow> CheckResult" where
  "todo_finding changes i =
     \<lparr>rule = ''no-todo-in-changes'', severity = Warning,
      message = ''Unresolved marker in new code: '' @ trim (addedLines changes ! i),
      line = at_index (addedLineNumbers changes) i,
      file' = Some (filename changes)\<rparr>"

text \<open>\<open>s\<close> contains \<open>t\<close>; \<open>s\<close> ends with \<open>t\<close>.\<close>

definition contains :: "string \<Rightarrow> string \<Rightarrow> bool" where
  "contains s t = (\<exists>p q. s = p @ t @ q)"

definition ends_in :: "string \<Rightarrow> string \<Rightarrow> bool" where
  "ends_in s t = (\<exists>p. s = p @ t)"

text \<open>
  Hunks in ascending order: every hunk header declares a start that is not below the
  value the counter has reached when the scan arrives at it. \<open>cur\<close> is the counter,
  advanced as the loop advances it.
\<close>

fun hunksAscending :: "int \<Rightarrow> string list \<Rightarrow> bool" where
  "hunksAscending cur [] = True"
| "hunksAscending cur (l # ls) =
     (case hunkMatch l of
        Some n \<Rightarrow> cur \<le> n \<and> hunksAscending n ls
      | None \<Rightarrow>
          hunksAscending
            (if (startsWith l ''+'' \<and> \<not> startsWith l ''+++'') \<or> startsWith l '' ''
             then cur + 1 else cur) ls)"

text \<open>
  The invariant of the scan when hunks ascend: the recorded numbers are in order and
  all of them are below the counter.
\<close>

definition numbers_below :: "scan_state \<Rightarrow> bool" where
  "numbers_below st =
     (sorted (addedLineNumbers st) \<and> (\<forall>y \<in> set (addedLineNumbers st). y < currentNewLine st))"

section \<open>Properties of the diff extraction\<close>

lemma ms_Bol_inside: "ms (Seq Bol r) (Some c, s, g) = []"
  by simp

lemma exec_at_Bol_inside: "exec_at (Seq Bol r) pre (Some c) s = None"
  by (induction s arbitrary: pre c) simp_all

lemma HUNK_HEADER_first:
  "\<exists>r r'. HUNK_HEADER = Seq Bol (Seq (Seq (Chr (\<lambda>x. x = CHR ''@'')) r) r')"
  by (simp add: HUNK_HEADER_def)

lemma hunkMatch_first_char:
  assumes "l = [] \<or> hd l \<noteq> CHR ''@''"
  shows "hunkMatch l = None"
proof -
  obtain r0 r1 where "HUNK_HEADER = Seq Bol (Seq (Seq (Chr (\<lambda>x. x = CHR ''@'')) r0) r1)"
    using HUNK_HEADER_first by blast
  then obtain r' where r: "HUNK_HEADER = Seq Bol r'"
    and r': "r' = Seq (Seq (Chr (\<lambda>x. x = CHR ''@'')) r0) r1"
    by blast
  have "exec HUNK_HEADER l = None"
  proof (cases l)
    case Nil
    then show ?thesis by (simp add: exec_def r r')
  next
    case (Cons c cs)
    with assms have "c \<noteq> CHR ''@''" by simp
    then have "ms (Seq Bol r') (None, c # cs, []) = []"
      by (simp add: r')
    then show ?thesis
      unfolding exec_def r Cons
      by (simp only: exec_at.simps list.case exec_at_Bol_inside)
  qed
  then show ?thesis by (simp add: hunkMatch_def)
qed

lemma startsWith_hd:
  "startsWith l (c # t) \<Longrightarrow> l \<noteq> [] \<and> hd l = c"
  by (cases l) (auto simp: startsWith_def)

lemma hunkMatch_new_file: "startsWith l ''new file mode'' \<Longrightarrow> hunkMatch l = None"
  using startsWith_hd [of l "CHR ''n''" "''ew file mode''"]
  by (intro hunkMatch_first_char) auto

lemma steps_agree: "parseDiff_step st l = parseDiffOutput_step st l"
proof (cases "startsWith l ''new file mode''")
  case True
  then have h: "hunkMatch l = None" by (rule hunkMatch_new_file)
  from True have "hd l = CHR ''n''" "l \<noteq> []"
    using startsWith_hd [of l "CHR ''n''" "''ew file mode''"] by auto
  then have "\<not> startsWith l ''+''" "\<not> startsWith l '' ''"
    by (cases l; auto simp: startsWith_def)+
  with True h show ?thesis
    by (simp add: parseDiff_step_def parseDiffOutput_step_def)
next
  case False
  then show ?thesis
    by (simp add: parseDiff_step_def parseDiffOutput_step_def)
qed

lemma step_lengths:
  "length (addedLines st) = length (addedLineNumbers st) \<Longrightarrow>
   length (addedLines (parseDiffOutput_step st l)) =
   length (addedLineNumbers (parseDiffOutput_step st l))"
  by (simp add: parseDiffOutput_step_def Let_def split: option.splits)

lemma scan_lengths:
  "length (addedLines st) = length (addedLineNumbers st) \<Longrightarrow>
   length (addedLines (foldl parseDiffOutput_step st ls)) =
   length (addedLineNumbers (foldl parseDiffOutput_step st ls))"
  by (induction ls arbitrary: st) (simp_all add: step_lengths)

lemma step_numbers_below_hunk:
  "numbers_below st \<Longrightarrow> hunkMatch l = Some n \<Longrightarrow> currentNewLine st \<le> n \<Longrightarrow>
   numbers_below (parseDiffOutput_step st l) \<and> currentNewLine (parseDiffOutput_step st l) = n"
  by (fastforce simp: numbers_below_def parseDiffOutput_step_def Let_def)

lemma step_numbers_below_other:
  "numbers_below st \<Longrightarrow> hunkMatch l = None \<Longrightarrow>
   numbers_below (parseDiffOutput_step st l) \<and>
   currentNewLine (parseDiffOutput_step st l) =
     (if (startsWith l ''+'' \<and> \<not> startsWith l ''+++'') \<or> startsWith l '' ''
      then currentNewLine st + 1 else currentNewLine st)"
  by (fastforce simp: numbers_below_def parseDiffOutput_step_def Let_def sorted_append)

lemma scan_numbers_below:
  "numbers_below st \<Longrightarrow> hunksAscending (currentNewLine st) ls \<Longrightarrow>
   numbers_below (foldl parseDiffOutput_step st ls)"
proof (induction ls arbitrary: st)
  case Nil
  then show ?case by simp
next
  case (Cons l ls)
  show ?case
  proof (cases "hunkMatch l")
    case None
    with Cons.prems step_numbers_below_other [of st l]
    have "numbers_below (parseDiffOutput_step st l)"
      and "hunksAscending (currentNewLine (parseDiffOutput_step st l)) ls"
      by simp_all
    then show ?thesis using Cons.IH by simp
  next
    case (Some n)
    with Cons.prems step_numbers_below_hunk [of st l n]
    have "numbers_below (parseDiffOutput_step st l)"
      and "hunksAscending (currentNewLine (parseDiffOutput_step st l)) ls"
      by simp_all
    then show ?thesis using Cons.IH by simp
  qed
qed

lemma step_unrecognised:
  "\<not> startsWith l ''new file mode'' \<Longrightarrow> hunkMatch l = None \<Longrightarrow>
   \<not> startsWith l ''+'' \<Longrightarrow> \<not> startsWith l '' '' \<Longrightarrow> parseDiffOutput_step st l = st"
  by (simp add: parseDiffOutput_step_def)

text \<open>
  C9. For every diff text, empty and malformed ones included, the extraction returns
  as many added lines as line numbers. The extraction is a total function: no line
  makes it fail, and a line that none of its tests recognises leaves the state of the
  scan as it is. The empty text gives the empty record.
\<close>

theorem parseDiffOutput_lengths:
  "length (addedLines (parseDiffOutput diff)) = length (addedLineNumbers (parseDiffOutput diff))
   \<and> (\<forall>st l. \<not> startsWith l ''new file mode'' \<and> hunkMatch l = None \<and>
              \<not> startsWith l ''+'' \<and> \<not> startsWith l '' '' \<longrightarrow>
              parseDiffOutput_step st l = st)
   \<and> parseDiffOutput [] = \<lparr>addedLines = [], addedLineNumbers = [], isNewFile = False\<rparr>"
proof -
  have "length (addedLines (parseDiffOutput diff)) =
        length (addedLineNumbers (parseDiffOutput diff))"
    by (simp add: parseDiffOutput_def Let_def scan_lengths scan_init_def)
  moreover have "parseDiffOutput [] = \<lparr>addedLines = [], addedLineNumbers = [], isNewFile = False\<rparr>"
    by code_simp
  ultimately show ?thesis
    using step_unrecognised by blast
qed

text \<open>
  A malformed text: a hunk header without its numbers, an added line, free text. The
  first and the third line are skipped, the added line is recorded at the initial
  counter 0.
\<close>

theorem parseDiffOutput_lengths_witness:
  "\<not> startsWith ''@@ garbage @@'' ''new file mode'' \<and> hunkMatch ''@@ garbage @@'' = None
   \<and> \<not> startsWith ''@@ garbage @@'' ''+'' \<and> \<not> startsWith ''@@ garbage @@'' '' ''
   \<and> parseDiffOutput_step scan_init ''@@ garbage @@'' = scan_init
   \<and> parseDiffOutput (joinLines [''@@ garbage @@'', ''+a'', ''random text'']) =
       \<lparr>addedLines = [''a''], addedLineNumbers = [0], isNewFile = False\<rparr>
   \<and> length (addedLines (parseDiffOutput (joinLines [''@@ garbage @@'', ''+a'', ''random text'']))) =
     length (addedLineNumbers (parseDiffOutput (joinLines [''@@ garbage @@'', ''+a'', ''random text''])))"
proof -
  have h: "\<not> startsWith ''@@ garbage @@'' ''new file mode'' \<and> hunkMatch ''@@ garbage @@'' = None
   \<and> \<not> startsWith ''@@ garbage @@'' ''+'' \<and> \<not> startsWith ''@@ garbage @@'' '' ''"
    by code_simp
  have e: "parseDiffOutput (joinLines [''@@ garbage @@'', ''+a'', ''random text'']) =
       \<lparr>addedLines = [''a''], addedLineNumbers = [0], isNewFile = False\<rparr>"
    by code_simp
  note all = parseDiffOutput_lengths [of "joinLines [''@@ garbage @@'', ''+a'', ''random text'']"]
  from all have "\<forall>st l. \<not> startsWith l ''new file mode'' \<and> hunkMatch l = None \<and>
              \<not> startsWith l ''+'' \<and> \<not> startsWith l '' '' \<longrightarrow>
              parseDiffOutput_step st l = st"
    by blast
  with h have "parseDiffOutput_step scan_init ''@@ garbage @@'' = scan_init"
    by blast
  with h e all show ?thesis
    by (simp only: simp_thms)
qed

text \<open>
  C10. The two copies of the parser, \<open>parseDiffOutput\<close> of gitDiff.ts and \<open>parseDiff\<close>
  of cli.ts, return the same added lines, the same line numbers and the same new-file
  flag on every input.
\<close>

theorem parseDiff_eq_parseDiffOutput: "parseDiff diff = parseDiffOutput diff"
proof -
  have "parseDiff_step = parseDiffOutput_step"
    by (intro ext) (rule steps_agree)
  then show ?thesis by (simp add: parseDiff_def parseDiffOutput_def)
qed

text \<open>
  C3, as stated: the line numbers of a record never decrease, whatever the diff text.
  It fails on a text whose second hunk starts below the first: the numbers are 5, 2.
\<close>

theorem line_numbers_decrease_counterexample:
  "\<not> sorted (addedLineNumbers (parseDiffOutput
       (joinLines [''@@ -1 +5 @@'', ''+a'', ''@@ -1 +2 @@'', ''+b''])))"
  by code_simp

text \<open>
  C3, amended: when the hunks of the diff text ascend (every hunk header declares a
  start that is not below the counter reached before it), the line numbers of the
  record are monotonically non-decreasing across the whole record.
\<close>

theorem line_numbers_sorted:
  assumes "hunksAscending 0 (split CHR 0x0A diff)"
  shows "sorted (addedLineNumbers (parseDiffOutput diff))"
proof -
  have "numbers_below scan_init"
    by (simp add: numbers_below_def scan_init_def)
  moreover have "currentNewLine scan_init = 0"
    by (simp add: scan_init_def)
  ultimately have "numbers_below (foldl parseDiffOutput_step scan_init (split CHR 0x0A diff))"
    using assms scan_numbers_below by simp
  then show ?thesis
    by (simp add: parseDiffOutput_def Let_def numbers_below_def)
qed

theorem line_numbers_sorted_witness:
  "hunksAscending 0 (split CHR 0x0A (joinLines [''@@ -1 +2 @@'', ''+a'', ''+b'', ''@@ -7,0 +9 @@'', ''+c'']))
   \<and> addedLineNumbers (parseDiffOutput
        (joinLines [''@@ -1 +2 @@'', ''+a'', ''+b'', ''@@ -7,0 +9 @@'', ''+c''])) = [2, 3, 9]
   \<and> sorted (addedLineNumbers (parseDiffOutput
        (joinLines [''@@ -1 +2 @@'', ''+a'', ''+b'', ''@@ -7,0 +9 @@'', ''+c''])))"
proof -
  have h: "hunksAscending 0
       (split CHR 0x0A (joinLines [''@@ -1 +2 @@'', ''+a'', ''+b'', ''@@ -7,0 +9 @@'', ''+c'']))"
    by code_simp
  have e: "addedLineNumbers (parseDiffOutput
        (joinLines [''@@ -1 +2 @@'', ''+a'', ''+b'', ''@@ -7,0 +9 @@'', ''+c''])) = [2, 3, 9]"
    by code_simp
  from h e line_numbers_sorted [OF h] show ?thesis by simp
qed

text \<open>
  C2: the extraction is the single scan of the specification, in which every line that
  starts with \<open>+\<close>, the file-header line \<open>+++\<close> apart, is recorded and advances the
  counter. It is not, on the diff of a file to which the two lines \<open>++i;\<close> and \<open>x\<close>
  were added: the first added line reads \<open>+++i;\<close> in the diff and is no file-header
  line, so the scan of the specification records it at line 1 and \<open>x\<close> at line 2;
  \<open>parseDiffOutput\<close> drops it without advancing the counter and records \<open>x\<close>
  alone, at line 1.
\<close>

theorem parseDiffOutput_drops_added_line:
  "parseDiffOutput (joinLines
     [''diff --git a/x.c b/x.c'', ''index e69de29..4b825dc 100644'', ''--- a/x.c'', ''+++ b/x.c'',
      ''@@ -0,0 +1,2 @@'', ''+++i;'', ''+x'']) =
   \<lparr>addedLines = [''x''], addedLineNumbers = [1], isNewFile = False\<rparr>"
  by code_simp

section \<open>Properties of the ordering of results\<close>

lemma compareFn_le: "compareFn y x \<le> 0 \<longleftrightarrow> order (severity y) \<le> order (severity x)"
  by (simp add: compareFn_def)

lemma set_insert_sorted: "set (insert_sorted cmp x ys) = insert x (set ys)"
  by (induction ys) auto

lemma insert_sorted_ranked:
  "sorted (map (\<lambda>r. order (severity r)) ys) \<Longrightarrow>
   sorted (map (\<lambda>r. order (severity r)) (insert_sorted compareFn x ys))"
  by (induction ys) (auto simp: compareFn_le set_insert_sorted)

lemma filter_insert_sorted:
  "sorted (map (\<lambda>r. order (severity r)) ys) \<Longrightarrow>
   filter (\<lambda>r. severity r = s) (insert_sorted compareFn x ys) =
   filter (\<lambda>r. severity r = s) ys @ (if severity x = s then [x] else [])"
proof (induction ys)
  case Nil
  then show ?case by simp
next
  case (Cons y ys)
  show ?case
  proof (cases "compareFn y x \<le> 0")
    case True
    with Cons show ?thesis by simp
  next
    case False
    then have lt: "order (severity x) < order (severity y)"
      by (simp add: compareFn_le)
    have "\<forall>z \<in> set (y # ys). order (severity y) \<le> order (severity z)"
      using Cons.prems by auto
    with lt have "\<forall>z \<in> set (y # ys). severity z \<noteq> severity x"
      by fastforce
    then have "severity x = s \<Longrightarrow> filter (\<lambda>r. severity r = s) (y # ys) = []"
      by (auto simp: filter_empty_conv)
    with False show ?thesis
      by (cases "severity x = s") simp_all
  qed
qed

lemma foldl_insert_sorted:
  "sorted (map (\<lambda>r. order (severity r)) acc) \<Longrightarrow>
   sorted (map (\<lambda>r. order (severity r)) (foldl (\<lambda>acc x. insert_sorted compareFn x acc) acc xs)) \<and>
   filter (\<lambda>r. severity r = s) (foldl (\<lambda>acc x. insert_sorted compareFn x acc) acc xs) =
   filter (\<lambda>r. severity r = s) acc @ filter (\<lambda>r. severity r = s) xs"
proof (induction xs arbitrary: acc)
  case Nil
  then show ?case by simp
next
  case (Cons x xs)
  from Cons.prems have "sorted (map (\<lambda>r. order (severity r)) (insert_sorted compareFn x acc))"
    by (rule insert_sorted_ranked)
  from Cons.IH [OF this] show ?case
    by (simp add: filter_insert_sorted [OF Cons.prems])
qed

lemma ranked_bands:
  "sorted (map (\<lambda>r. order (severity r)) ys) \<Longrightarrow>
   ys = filter (\<lambda>r. severity r = Error) ys @ filter (\<lambda>r. severity r = Warning) ys @
        filter (\<lambda>r. severity r = Info) ys"
proof (induction ys)
  case Nil
  then show ?case by simp
next
  case (Cons y ys)
  then have IH: "ys = filter (\<lambda>r. severity r = Error) ys @ filter (\<lambda>r. severity r = Warning) ys @
        filter (\<lambda>r. severity r = Info) ys"
    by simp
  have below: "\<forall>z \<in> set ys. order (severity y) \<le> order (severity z)"
    using Cons.prems by auto
  show ?case
  proof (cases "severity y")
    case Error
    with IH show ?thesis by simp
  next
    case Warning
    with below have "\<forall>z \<in> set ys. severity z \<noteq> Error"
      by fastforce
    then have "filter (\<lambda>r. severity r = Error) ys = []"
      by (auto simp: filter_empty_conv)
    with IH Warning show ?thesis by simp
  next
    case Info
    with below have "\<forall>z \<in> set ys. severity z \<noteq> Error \<and> severity z \<noteq> Warning"
      by fastforce
    then have "filter (\<lambda>r. severity r = Error) ys = []"
      and "filter (\<lambda>r. severity r = Warning) ys = []"
      by (auto simp: filter_empty_conv)
    with IH Info show ?thesis by simp
  qed
qed

text \<open>
  C8. The report order is severity-major and stable: the sorted list is the error
  findings of the input in their input order, then the warning findings in their input
  order, then the info findings in their input order.
\<close>

theorem array_sort_severity_bands:
  "array_sort compareFn xs =
     filter (\<lambda>r. severity r = Error) xs @ filter (\<lambda>r. severity r = Warning) xs @
     filter (\<lambda>r. severity r = Info) xs"
proof -
  let ?ys = "array_sort compareFn xs"
  have s: "sorted (map (\<lambda>r. order (severity r)) ?ys)"
    and f: "\<And>s. filter (\<lambda>r. severity r = s) ?ys = filter (\<lambda>r. severity r = s) xs"
    using foldl_insert_sorted [of "[]" xs] by (simp_all add: array_sort_def)
  from ranked_bands [OF s] show ?thesis
    by (simp only: f)
qed

section \<open>Properties of the checks\<close>

lemma startsWith_iff: "startsWith s t \<longleftrightarrow> (\<exists>q. s = t @ q)"
proof
  assume "startsWith s t"
  then have "s = t @ drop (length t) s"
    by (metis append_take_drop_id startsWith_def)
  then show "\<exists>q. s = t @ q" ..
next
  assume "\<exists>q. s = t @ q"
  then show "startsWith s t" by (auto simp: startsWith_def)
qed

lemma includes_str_iff: "includes_str s t \<longleftrightarrow> contains s t"
proof (induction s)
  case Nil
  then show ?case by (auto simp: contains_def)
next
  case (Cons c cs)
  have "contains (c # cs) t \<longleftrightarrow> startsWith (c # cs) t \<or> contains cs t"
  proof
    assume "contains (c # cs) t"
    then obtain p q where pq: "c # cs = p @ t @ q" by (auto simp: contains_def)
    show "startsWith (c # cs) t \<or> contains cs t"
    proof (cases p)
      case Nil
      with pq show ?thesis by (auto simp: startsWith_iff)
    next
      case (Cons a p')
      with pq have "cs = p' @ t @ q" by simp
      then show ?thesis by (auto simp: contains_def)
    qed
  next
    assume "startsWith (c # cs) t \<or> contains cs t"
    then show "contains (c # cs) t"
    proof
      assume "startsWith (c # cs) t"
      then obtain q where "c # cs = [] @ t @ q" by (auto simp: startsWith_iff)
      then show ?thesis unfolding contains_def by blast
    next
      assume "contains cs t"
      then obtain p q where "cs = p @ t @ q" by (auto simp: contains_def)
      then have "c # cs = (c # p) @ t @ q" by simp
      then show ?thesis unfolding contains_def by blast
    qed
  qed
  with Cons show ?case by simp
qed

lemma endsWith_iff: "endsWith s t \<longleftrightarrow> ends_in s t"
proof
  assume "endsWith s t"
  then have "s = take (length s - length t) s @ t"
    by (metis append_take_drop_id endsWith_def)
  then show "ends_in s t" unfolding ends_in_def ..
next
  assume "ends_in s t"
  then show "endsWith s t" by (auto simp: ends_in_def endsWith_def)
qed

lemma forEach_idx_concat:
  "forEach_idx f idx ls = concat (map (\<lambda>i. f (ls ! i) (idx + i)) [0..<length ls])"
proof (induction ls arbitrary: idx)
  case Nil
  then show ?case by simp
next
  case (Cons l ls)
  have "[0..<length (l # ls)] = 0 # map Suc [0..<length ls]"
    by (simp add: upt_conv_Cons map_Suc_upt del: upt_Suc)
  then show ?case
    by (simp add: Cons.IH comp_def del: upt_Suc)
qed

lemma concat_map_if:
  "concat (map (\<lambda>i. if Q i then [g i] else []) is) = map g (filter Q is)"
  by (induction "is") simp_all

lemma first_pattern_iff:
  "first_pattern pats l r = (if \<exists>pat \<in> set pats. test pat l then [r] else [])"
  by (induction pats) simp_all

lemma debug_line_flagged:
  "i < length (addedLines c) \<Longrightarrow>
   debug_line c (addedLines c ! i) i =
     (if debug_flagged (addedLines c ! i) then [debug_finding c i] else [])"
  by (simp add: debug_line_def debug_flagged_def debug_finding_def first_pattern_iff Let_def)

lemma checkDebugStatements_map_filter:
  "checkDebugStatements c =
     map (debug_finding c)
         (filter (\<lambda>i. debug_flagged (addedLines c ! i)) [0..<length (addedLines c)])"
proof -
  have "checkDebugStatements c =
        concat (map (\<lambda>i. debug_line c (addedLines c ! i) i) [0..<length (addedLines c)])"
    by (simp add: checkDebugStatements_def forEach_idx_concat)
  also have "\<dots> = concat (map (\<lambda>i. if debug_flagged (addedLines c ! i) then [debug_finding c i] else [])
                          [0..<length (addedLines c)])"
    by (intro arg_cong [where f = concat] map_cong refl) (simp add: debug_line_flagged)
  finally show ?thesis
    by (simp only: concat_map_if)
qed

text \<open>
  C5. When the lower-cased filename contains \<open>test\<close>, \<open>spec\<close>, \<open>mock\<close>, \<open>fixture\<close>,
  \<open>example\<close> or \<open>.env.sample\<close>, or ends with \<open>.md\<close>, \<open>checkSecrets\<close> returns the
  empty list whatever the added lines are.
\<close>

theorem checkSecrets_skips_excluded_paths:
  assumes "(\<exists>w \<in> set [''test'', ''spec'', ''mock'', ''fixture'', ''example'', ''.env.sample''].
              contains (toLowerCase (filename c)) w)
           \<or> ends_in (toLowerCase (filename c)) ''.md''"
  shows "checkSecrets c = []"
  using assms by (auto simp: checkSecrets_def includes_str_iff endsWith_iff Let_def)

text \<open>
  The instance of the specification: a line with an OpenAI-shaped token in
  \<open>src/auth.test.ts\<close> gives no finding. In a file that is not excluded the check
  does report: a quoted password in \<open>src/auth.ts\<close> gives one error.
\<close>

theorem checkSecrets_skips_excluded_paths_witness:
  "contains (toLowerCase ''src/auth.test.ts'') ''test''
   \<and> checkSecrets \<lparr>addedLines = [''const fakeKey = \"sk-abc123def456ghi789jkl012mno345pqr678stu901vwx234y\";''],
         addedLineNumbers = [1], isNewFile = False, filename = ''src/auth.test.ts'',
         sizeBytes = 1000\<rparr> = []
   \<and> checkSecrets \<lparr>addedLines = [''pwd=\"abcd\"''],
         addedLineNumbers = [1], isNewFile = False, filename = ''src/auth.ts'',
         sizeBytes = 1000\<rparr> =
        [\<lparr>rule = ''no-secrets'', severity = Error, message = ''Possible credential detected'',
          line = Some 1, file' = Some ''src/auth.ts''\<rparr>]"
proof -
  have "toLowerCase ''src/auth.test.ts'' = ''src/auth.'' @ ''test'' @ ''.ts''"
    by code_simp
  then have c: "contains (toLowerCase ''src/auth.test.ts'') ''test''"
    unfolding contains_def by blast
  have one: "checkSecrets \<lparr>addedLines = [''pwd=\"abcd\"''],
         addedLineNumbers = [1], isNewFile = False, filename = ''src/auth.ts'',
         sizeBytes = 1000\<rparr> =
        [\<lparr>rule = ''no-secrets'', severity = Error, message = ''Possible credential detected'',
          line = Some 1, file' = Some ''src/auth.ts''\<rparr>]"
    by code_simp
  from c one
    checkSecrets_skips_excluded_paths [of "\<lparr>addedLines = [''const fakeKey = \"sk-abc123def456ghi789jkl012mno345pqr678stu901vwx234y\";''],
         addedLineNumbers = [1], isNewFile = False, filename = ''src/auth.test.ts'',
         sizeBytes = 1000\<rparr>"]
  show ?thesis by simp
qed

text \<open>
  C6. \<open>checkDebugStatements\<close> reports the flagged lines in order, one finding for
  each: an error whose line is the entry of \<open>addedLineNumbers\<close> at the index of the
  flagged line. A line is flagged when a debug pattern matches it and its trimmed form
  does not start with \<open>//\<close>, \<open>#\<close> or \<open>*\<close>. So there is at most one finding for a line
  and every finding is an error. The line \<open>console.log("hello")\<close> at position 5 gives
  one error with line 5, and the line \<open>// console.log("x")\<close> gives none.
\<close>

theorem checkDebugStatements_findings:
  "checkDebugStatements c =
     map (debug_finding c)
         (filter (\<lambda>i. debug_flagged (addedLines c ! i)) [0..<length (addedLines c)])
   \<and> length (checkDebugStatements c) \<le> length (addedLines c)
   \<and> (\<forall>r \<in> set (checkDebugStatements c). severity r = Error)
   \<and> (\<forall>i < length (addedLines c).
         startsWith (trim (addedLines c ! i)) ''//'' \<or> startsWith (trim (addedLines c ! i)) ''#'' \<or>
         startsWith (trim (addedLines c ! i)) ''*'' \<longrightarrow> debug_line c (addedLines c ! i) i = [])
   \<and> checkDebugStatements \<lparr>addedLines = [''console.log(\"hello\")''], addedLineNumbers = [5],
        isNewFile = False, filename = ''src/foo.ts'', sizeBytes = 1000\<rparr> =
       [\<lparr>rule = ''no-debug-statements'', severity = Error,
         message = ''Debug statement found: console.log(\"hello\")'',
         line = Some 5, file' = Some ''src/foo.ts''\<rparr>]
   \<and> checkDebugStatements \<lparr>addedLines = [''// console.log(\"x\")''], addedLineNumbers = [1],
        isNewFile = False, filename = ''src/foo.ts'', sizeBytes = 1000\<rparr> = []"
proof -
  have eq: "checkDebugStatements c =
     map (debug_finding c)
         (filter (\<lambda>i. debug_flagged (addedLines c ! i)) [0..<length (addedLines c)])"
    by (rule checkDebugStatements_map_filter)
  have "length (filter (\<lambda>i. debug_flagged (addedLines c ! i)) [0..<length (addedLines c)])
        \<le> length [0..<length (addedLines c)]"
    by (rule length_filter_le)
  then have len: "length (checkDebugStatements c) \<le> length (addedLines c)"
    by (simp add: eq)
  have sev: "\<forall>r \<in> set (checkDebugStatements c). severity r = Error"
    by (auto simp: eq debug_finding_def)
  have com: "\<forall>i < length (addedLines c).
         startsWith (trim (addedLines c ! i)) ''//'' \<or> startsWith (trim (addedLines c ! i)) ''#'' \<or>
         startsWith (trim (addedLines c ! i)) ''*'' \<longrightarrow> debug_line c (addedLines c ! i) i = []"
    by (simp add: debug_line_def Let_def)
  have ex1: "checkDebugStatements \<lparr>addedLines = [''console.log(\"hello\")''], addedLineNumbers = [5],
        isNewFile = False, filename = ''src/foo.ts'', sizeBytes = 1000\<rparr> =
       [\<lparr>rule = ''no-debug-statements'', severity = Error,
         message = ''Debug statement found: console.log(\"hello\")'',
         line = Some 5, file' = Some ''src/foo.ts''\<rparr>]"
    by code_simp
  have ex2: "checkDebugStatements \<lparr>addedLines = [''// console.log(\"x\")''], addedLineNumbers = [1],
        isNewFile = False, filename = ''src/foo.ts'', sizeBytes = 1000\<rparr> = []"
    by code_simp
  from eq len sev com ex1 ex2 show ?thesis by blast
qed

theorem checkDebugStatements_findings_witness:
  "checkDebugStatements \<lparr>addedLines = [''console.log(\"hello\")'', ''// console.log(\"x\")'', ''let a = 1;''],
        addedLineNumbers = [5, 6, 7], isNewFile = False, filename = ''src/foo.ts'', sizeBytes = 1000\<rparr> =
     [\<lparr>rule = ''no-debug-statements'', severity = Error,
       message = ''Debug statement found: console.log(\"hello\")'',
       line = Some 5, file' = Some ''src/foo.ts''\<rparr>]
   \<and> startsWith (trim ''// console.log(\"x\")'') ''//''
   \<and> debug_line \<lparr>addedLines = [''console.log(\"hello\")'', ''// console.log(\"x\")'', ''let a = 1;''],
        addedLineNumbers = [5, 6, 7], isNewFile = False, filename = ''src/foo.ts'', sizeBytes = 1000\<rparr>
        ''// console.log(\"x\")'' 1 = []"
proof -
  let ?c = "\<lparr>addedLines = [''console.log(\"hello\")'', ''// console.log(\"x\")'', ''let a = 1;''],
        addedLineNumbers = [5, 6, 7], isNewFile = False, filename = ''src/foo.ts'', sizeBytes = 1000\<rparr>"
  have f: "filter (\<lambda>i. debug_flagged (addedLines ?c ! i)) [0..<length (addedLines ?c)] = [0]"
    by code_simp
  have d: "debug_finding ?c 0 =
     \<lparr>rule = ''no-debug-statements'', severity = Error,
       message = ''Debug statement found: console.log(\"hello\")'',
       line = Some 5, file' = Some ''src/foo.ts''\<rparr>"
    by code_simp
  have s: "startsWith (trim ''// console.log(\"x\")'') ''//''"
    by code_simp
  note all = checkDebugStatements_findings [of ?c]
  from all have "checkDebugStatements ?c = map (debug_finding ?c)
          (filter (\<lambda>i. debug_flagged (addedLines ?c ! i)) [0..<length (addedLines ?c)])"
    by (rule conjunct1)
  then have r: "checkDebugStatements ?c = [debug_finding ?c 0]"
    by (simp only: f list.map)
  from all have "\<forall>i < length (addedLines ?c).
         startsWith (trim (addedLines ?c ! i)) ''//'' \<or> startsWith (trim (addedLines ?c ! i)) ''#'' \<or>
         startsWith (trim (addedLines ?c ! i)) ''*'' \<longrightarrow> debug_line ?c (addedLines ?c ! i) i = []"
    by blast
  then have "1 < length (addedLines ?c) \<longrightarrow>
         startsWith (trim (addedLines ?c ! 1)) ''//'' \<or> startsWith (trim (addedLines ?c ! 1)) ''#'' \<or>
         startsWith (trim (addedLines ?c ! 1)) ''*'' \<longrightarrow> debug_line ?c (addedLines ?c ! 1) 1 = []"
    by (rule spec)
  with s have e: "debug_line ?c ''// console.log(\"x\")'' 1 = []"
    by simp
  from r d s e show ?thesis
    by (simp only: simp_thms)
qed

subsection \<open>The matcher on the TODO pattern\<close>

lemma exec_at_None_iff:
  "exec_at r pre p s = None \<longleftrightarrow>
     ms r (p, s, []) = [] \<and> (\<forall>a c b. s = a @ c # b \<longrightarrow> ms r (Some c, b, []) = [])"
proof (induction s arbitrary: pre p)
  case Nil
  then show ?case by (simp split: list.splits)
next
  case (Cons x xs)
  have split_eq: "\<And>a c b. (x # xs = a @ c # b) \<longleftrightarrow>
        (a = [] \<and> c = x \<and> b = xs) \<or> (\<exists>a'. a = x # a' \<and> xs = a' @ c # b)"
    by (auto simp: Cons_eq_append_conv)
  show ?case
  proof (cases "ms r (p, x # xs, [])")
    case Nil
    then have "exec_at r pre p (x # xs) = None \<longleftrightarrow> exec_at r (pre @ [x]) (Some x) xs = None"
      by simp
    also have "\<dots> \<longleftrightarrow> ms r (Some x, xs, []) = [] \<and>
                 (\<forall>a c b. xs = a @ c # b \<longrightarrow> ms r (Some c, b, []) = [])"
      by (rule Cons.IH)
    also have "\<dots> \<longleftrightarrow> (\<forall>a c b. x # xs = a @ c # b \<longrightarrow> ms r (Some c, b, []) = [])"
      unfolding split_eq by blast
    finally show ?thesis using Nil by simp
  next
    case (Cons st sts)
    then show ?thesis by (simp split: prod.splits)
  qed
qed

lemma test_iff:
  "test r l \<longleftrightarrow>
     ms r (None, l, []) \<noteq> [] \<or> (\<exists>a c b. l = a @ c # b \<and> ms r (Some c, b, []) \<noteq> [])"
  unfolding test_def exec_def exec_at_None_iff by blast

lemma set_ms_alts: "set (ms (alts rs) st) = (\<Union>r \<in> set rs. set (ms r st))"
  by (induction rs) simp_all

lemma ms_liti_iff:
  "(p', s', g') \<in> set (ms (liti w) (p, s, g)) \<longleftrightarrow>
     (\<exists>u. s = u @ s' \<and> map to_upper u = map to_upper w \<and> g' = g \<and>
          p' = (if u = [] then p else Some (last u)))"
proof (induction w arbitrary: p s)
  case Nil
  then show ?case by auto
next
  case (Cons c cs)
  show ?case
  proof (cases s)
    case Nil
    then show ?thesis by simp
  next
    case (Cons x xs)
    show ?thesis
    proof (cases "to_upper x = to_upper c")
      case True
      then have "(p', s', g') \<in> set (ms (liti (c # cs)) (p, s, g)) \<longleftrightarrow>
                 (p', s', g') \<in> set (ms (liti cs) (Some x, xs, g))"
        by (simp add: Cons)
      also have "\<dots> \<longleftrightarrow> (\<exists>u. xs = u @ s' \<and> map to_upper u = map to_upper cs \<and> g' = g \<and>
          p' = (if u = [] then Some x else Some (last u)))"
        by (rule Cons.IH)
      also have "\<dots> \<longleftrightarrow> (\<exists>u. s = u @ s' \<and> map to_upper u = map to_upper (c # cs) \<and> g' = g \<and>
          p' = (if u = [] then p else Some (last u)))"
      proof
        assume "\<exists>u. xs = u @ s' \<and> map to_upper u = map to_upper cs \<and> g' = g \<and>
          p' = (if u = [] then Some x else Some (last u))"
        then obtain u where u: "xs = u @ s'" "map to_upper u = map to_upper cs" "g' = g"
          "p' = (if u = [] then Some x else Some (last u))" by blast
        with True Cons have "s = (x # u) @ s' \<and> map to_upper (x # u) = map to_upper (c # cs) \<and> g' = g \<and>
          p' = (if x # u = [] then p else Some (last (x # u)))"
          by simp
        then show "\<exists>u. s = u @ s' \<and> map to_upper u = map to_upper (c # cs) \<and> g' = g \<and>
          p' = (if u = [] then p else Some (last u))" by blast
      next
        assume "\<exists>u. s = u @ s' \<and> map to_upper u = map to_upper (c # cs) \<and> g' = g \<and>
          p' = (if u = [] then p else Some (last u))"
        then obtain u where u: "s = u @ s'" "map to_upper u = map to_upper (c # cs)" "g' = g"
          "p' = (if u = [] then p else Some (last u))" by blast
        from u(2) obtain y u' where u': "u = y # u'" by (cases u) auto
        with u Cons have "xs = u' @ s' \<and> map to_upper u' = map to_upper cs \<and> g' = g \<and>
          p' = (if u' = [] then Some x else Some (last u'))"
          by auto
        then show "\<exists>u. xs = u @ s' \<and> map to_upper u = map to_upper cs \<and> g' = g \<and>
          p' = (if u = [] then Some x else Some (last u))" by blast
      qed
      finally show ?thesis .
    next
      case False
      then have "ms (liti (c # cs)) (p, s, g) = []"
        by (simp add: Cons)
      moreover have "\<not> (\<exists>u. s = u @ s' \<and> map to_upper u = map to_upper (c # cs))"
      proof
        assume "\<exists>u. s = u @ s' \<and> map to_upper u = map to_upper (c # cs)"
        then obtain u where u: "s = u @ s'" "map to_upper u = map to_upper (c # cs)" by blast
        from u(2) obtain y u' where "u = y # u'" by (cases u) auto
        with u Cons False show False by auto
      qed
      ultimately show ?thesis by auto
    qed
  qed
qed

lemma code_char_of: "n < 256 \<Longrightarrow> code (char_of n) = n"
  by (simp add: code_def)

lemma to_upper_is_upper:
  assumes up: "is_upper (to_upper x)"
  shows "is_word x"
proof (cases "is_lower x \<or> (224 \<le> code x \<and> code x \<le> 254 \<and> code x \<noteq> 247)")
  case False
  then have "to_upper x = x"
    by (simp only: to_upper_def if_False)
  with up show ?thesis by (simp add: is_word_def)
next
  case True
  then have u: "to_upper x = char_of (code x - 32)"
    by (simp only: to_upper_def if_True)
  show ?thesis
  proof (cases "is_lower x")
    case True
    then show ?thesis by (simp add: is_word_def)
  next
    case False
    with True have hi: "224 \<le> code x" "code x \<le> 254" by blast+
    then have "code x - 32 < 256" by arith
    then have "code (char_of (code x - 32)) = code x - 32"
      by (rule code_char_of)
    with u have "code (to_upper x) = code x - 32" by simp
    with hi up have False
      unfolding is_upper_def by arith
    then show ?thesis ..
  qed
qed

lemma TODO_WORDS_upper:
  "\<forall>w \<in> set TODO_WORDS. map to_upper w = w \<and> w \<noteq> [] \<and> is_upper (hd w)"
  by code_simp

lemma marker_starts_word:
  assumes "map to_upper u \<in> set TODO_WORDS"
  shows "u \<noteq> [] \<and> is_word (hd u)"
proof -
  from assms TODO_WORDS_upper have "map to_upper u \<noteq> []" "is_upper (hd (map to_upper u))"
    by auto
  then have "u \<noteq> []" "is_upper (to_upper (hd u))"
    by (auto simp: hd_map)
  then show ?thesis by (simp add: to_upper_is_upper)
qed

lemma ms_Chr_then_nonempty:
  "ms (Seq (Chr P) Eps) (p, s, g) \<noteq> [] \<longleftrightarrow> (\<exists>c t. s = c # t \<and> P c)"
  by (cases s) simp_all

lemma ms_Grp_iff:
  "(p', s', g') \<in> set (ms (Grp a) (p, s, g)) \<longleftrightarrow>
     (\<exists>g0. (p', s', g0) \<in> set (ms a (p, s, g)) \<and> g' = g0 @ [take (length s - length s') s])"
proof -
  have "ms (Grp a) (p, s, g) =
        map (\<lambda>(p', s', g'). (p', s', g' @ [take (length s - length s') s])) (ms a (p, s, g))"
    by simp
  then show ?thesis
    by (simp only: set_map image_iff) (auto split: prod.splits)
qed

lemma ms_Seq_nonempty:
  "ms (Seq a b) st \<noteq> [] \<longleftrightarrow> (\<exists>st' \<in> set (ms a st). ms b st' \<noteq> [])"
proof -
  have "ms (Seq a b) st = concat (map (ms b) (ms a st))" by simp
  then show ?thesis
    by (simp only: concat_eq_Nil_conv set_map) blast
qed

lemma ms_Wordb_then_nonempty:
  "ms (Seq Wordb r) (p, s, g) \<noteq> [] \<longleftrightarrow> word_before p \<noteq> word_after s \<and> ms r (p, s, g) \<noteq> []"
  by simp

lemma ms_markers_iff:
  "(p', s', g') \<in> set (ms (Grp (alts (map liti ws))) (p, s, [])) \<longleftrightarrow>
     (\<exists>w \<in> set ws. \<exists>u. s = u @ s' \<and> map to_upper u = map to_upper w \<and>
        p' = (if u = [] then p else Some (last u)) \<and> g' = [u])"
  (is "?L \<longleftrightarrow> ?R")
proof
  assume ?L
  then obtain g0 where g0: "(p', s', g0) \<in> set (ms (alts (map liti ws)) (p, s, []))"
    and g': "g' = g0 @ [take (length s - length s') s]"
    unfolding ms_Grp_iff by blast
  from g0 obtain w where w: "w \<in> set ws" "(p', s', g0) \<in> set (ms (liti w) (p, s, []))"
    unfolding set_ms_alts by auto
  from w(2) obtain u where u: "s = u @ s'" "map to_upper u = map to_upper w" "g0 = []"
    "p' = (if u = [] then p else Some (last u))"
    unfolding ms_liti_iff by blast
  from u(1) have "take (length s - length s') s = u" by simp
  with g' u(3) have "g' = [u]" by simp
  with w(1) u show ?R by blast
next
  assume ?R
  then obtain w u where w: "w \<in> set ws" and u: "s = u @ s'" "map to_upper u = map to_upper w"
    "p' = (if u = [] then p else Some (last u))" "g' = [u]"
    by blast
  from u have "(p', s', []) \<in> set (ms (liti w) (p, s, []))"
    unfolding ms_liti_iff by blast
  with w have "(p', s', []) \<in> set (ms (alts (map liti ws)) (p, s, []))"
    unfolding set_ms_alts by auto
  moreover from u(1) have "take (length s - length s') s = u" by simp
  with u(4) have "g' = [] @ [take (length s - length s') s]" by simp
  ultimately show ?L
    unfolding ms_Grp_iff by blast
qed

lemma ms_TODO_body_only_if:
  assumes "ms (Seq (Grp (alts (map liti TODO_WORDS))) (Seq (Chr (\<lambda>x. is_space x \<or> x = CHR '':'')) Eps)) (p, s, []) \<noteq> []"
  shows "\<exists>u sep post. s = u @ sep # post \<and> map to_upper u \<in> set TODO_WORDS \<and>
                   (is_space sep \<or> sep = CHR '':'')"
proof -
  let ?sepP = "\<lambda>x. is_space x \<or> x = CHR '':''"
  from assms obtain st where st: "st \<in> set (ms (Grp (alts (map liti TODO_WORDS))) (p, s, []))"
      and nz: "ms (Seq (Chr ?sepP) Eps) st \<noteq> []"
    using ms_Seq_nonempty [of "Grp (alts (map liti TODO_WORDS))" "Seq (Chr ?sepP) Eps" "(p, s, [])"]
    by blast
  obtain p' s' g' where e: "st = (p', s', g')" by (cases st) auto
  from st obtain w u where w: "w \<in> set TODO_WORDS" "s = u @ s'"
      "map to_upper u = map to_upper w"
    using ms_markers_iff [of p' s' g' TODO_WORDS p s] unfolding e by blast
  from nz obtain sep post where sp: "s' = sep # post" "?sepP sep"
    using ms_Chr_then_nonempty [of ?sepP p' s' g'] unfolding e by blast
  from w(1) TODO_WORDS_upper have "map to_upper w = w" by blast
  with w have "map to_upper u \<in> set TODO_WORDS" by simp
  with w(2) sp show ?thesis by blast
qed


lemma ms_TODO_body_if:
  assumes c: "s = u @ sep # post" "map to_upper u \<in> set TODO_WORDS" "is_space sep \<or> sep = CHR '':''"
  shows "ms (Seq (Grp (alts (map liti TODO_WORDS))) (Seq (Chr (\<lambda>x. is_space x \<or> x = CHR '':'')) Eps)) (p, s, []) \<noteq> []"
proof -
  let ?sepP = "\<lambda>x. is_space x \<or> x = CHR '':''"
  let ?p = "if u = [] then p else Some (last u)"
  from TODO_WORDS_upper c(2)
  have "map to_upper (map to_upper u) = map to_upper u \<and> map to_upper u \<noteq> [] \<and>
        is_upper (hd (map to_upper u))"
    by (rule bspec)
  then have idem: "map to_upper u = map to_upper (map to_upper u)" by simp
  have "\<exists>w \<in> set TODO_WORDS. \<exists>v. s = v @ sep # post \<and> map to_upper v = map to_upper w \<and>
          ?p = (if v = [] then p else Some (last v)) \<and> [u] = [v]"
  proof (intro bexI exI conjI)
    show "map to_upper u \<in> set TODO_WORDS" by (rule c(2))
    show "s = u @ sep # post" by (rule c(1))
    show "map to_upper u = map to_upper (map to_upper u)" by (rule idem)
  qed (rule refl)+
  then have "(?p, sep # post, [u]) \<in> set (ms (Grp (alts (map liti TODO_WORDS))) (p, s, []))"
    by (simp only: ms_markers_iff)
  moreover from c(3) have "ms (Seq (Chr ?sepP) Eps) (?p, sep # post, [u]) \<noteq> []"
    by (simp only: ms_Chr_then_nonempty) blast
  ultimately have "\<exists>st' \<in> set (ms (Grp (alts (map liti TODO_WORDS))) (p, s, [])).
       ms (Seq (Chr ?sepP) Eps) st' \<noteq> []"
    by (rule bexI [rotated])
  then show ?thesis
    by (simp only: ms_Seq_nonempty)
qed


lemma TODO_PATTERN_shape:
  "TODO_PATTERN = Seq Wordb (Seq (Grp (alts (map liti TODO_WORDS)))
                   (Seq (Chr (\<lambda>x. is_space x \<or> x = CHR '':'')) Eps))"
  by (simp add: TODO_PATTERN_def)

text \<open>The pattern at one position: after the code unit \<open>p\<close>, on the rest \<open>s\<close>.\<close>

lemma ms_TODO_PATTERN:
  "ms TODO_PATTERN (p, s, []) \<noteq> [] \<longleftrightarrow>
     \<not> word_before p \<and>
     (\<exists>u sep post. s = u @ sep # post \<and> map to_upper u \<in> set TODO_WORDS \<and>
                   (is_space sep \<or> sep = CHR '':''))"
  (is "?L \<longleftrightarrow> ?N \<and> ?C")
proof -
  let ?body = "Seq (Grp (alts (map liti TODO_WORDS)))
                 (Seq (Chr (\<lambda>x. is_space x \<or> x = CHR '':'')) Eps)"
  have body: "ms ?body (p, s, []) \<noteq> [] \<longleftrightarrow> ?C"
  proof
    assume "ms ?body (p, s, []) \<noteq> []"
    then show ?C by (rule ms_TODO_body_only_if)
  next
    assume ?C
    then obtain u sep post where "s = u @ sep # post" "map to_upper u \<in> set TODO_WORDS"
      "is_space sep \<or> sep = CHR '':''" by blast
    then show "ms ?body (p, s, []) \<noteq> []" by (rule ms_TODO_body_if)
  qed
  have after: "?C \<Longrightarrow> word_after s"
  proof -
    assume ?C
    then obtain u sep post where c: "s = u @ sep # post" "map to_upper u \<in> set TODO_WORDS"
      by blast
    from marker_starts_word [OF c(2)] c(1) show "word_after s"
      by (cases u) (simp_all add: word_after_def)
  qed
  have "?L \<longleftrightarrow> word_before p \<noteq> word_after s \<and> ms ?body (p, s, []) \<noteq> []"
    unfolding TODO_PATTERN_shape by (rule ms_Wordb_then_nonempty)
  also have "\<dots> \<longleftrightarrow> word_before p \<noteq> word_after s \<and> ?C"
    by (simp only: body)
  also have "\<dots> \<longleftrightarrow> ?N \<and> ?C"
    using after by blast
  finally show ?thesis .
qed

lemma test_TODO_PATTERN: "test TODO_PATTERN l \<longleftrightarrow> has_todo_marker l"
proof
  assume "test TODO_PATTERN l"
  then consider (start) "ms TODO_PATTERN (None, l, []) \<noteq> []"
    | (inside) a c b where "l = a @ c # b" "ms TODO_PATTERN (Some c, b, []) \<noteq> []"
    unfolding test_iff by blast
  then show "has_todo_marker l"
  proof cases
    case start
    then obtain u sep post where "l = u @ sep # post" "map to_upper u \<in> set TODO_WORDS"
      "is_space sep \<or> sep = CHR '':''"
      unfolding ms_TODO_PATTERN by blast
    then have "l = [] @ u @ sep # post \<and> map to_upper u \<in> set TODO_WORDS \<and>
        (is_space sep \<or> sep = CHR '':'') \<and> ([] = [] \<or> \<not> is_word (last []))"
      by simp
    then show ?thesis unfolding has_todo_marker_def by blast
  next
    case inside
    from inside(2) obtain u sep post where u: "b = u @ sep # post"
      "map to_upper u \<in> set TODO_WORDS" "is_space sep \<or> sep = CHR '':''"
      and nw: "\<not> word_before (Some c)"
      unfolding ms_TODO_PATTERN by blast
    from nw have "\<not> is_word c" by (simp add: word_before_def)
    with inside(1) u have "l = (a @ [c]) @ u @ sep # post \<and> map to_upper u \<in> set TODO_WORDS \<and>
        (is_space sep \<or> sep = CHR '':'') \<and> (a @ [c] = [] \<or> \<not> is_word (last (a @ [c])))"
      by simp
    then show ?thesis unfolding has_todo_marker_def by blast
  qed
next
  assume "has_todo_marker l"
  then obtain pre w sep post where m: "l = pre @ w @ sep # post"
    "map to_upper w \<in> set TODO_WORDS" "is_space sep \<or> sep = CHR '':''"
    "pre = [] \<or> \<not> is_word (last pre)"
    unfolding has_todo_marker_def by blast
  show "test TODO_PATTERN l"
  proof (cases pre rule: rev_cases)
    case Nil
    have "\<not> word_before None" by (simp add: word_before_def)
    with m(2,3) have "ms TODO_PATTERN (None, w @ sep # post, []) \<noteq> []"
      unfolding ms_TODO_PATTERN by blast
    with m(1) Nil show ?thesis unfolding test_iff by simp
  next
    case (snoc a c)
    with m(4) have "\<not> word_before (Some c)" by (simp add: word_before_def)
    with m(2,3) have "ms TODO_PATTERN (Some c, w @ sep # post, []) \<noteq> []"
      unfolding ms_TODO_PATTERN by blast
    moreover from m(1) snoc have "l = a @ c # (w @ sep # post)" by simp
    ultimately show ?thesis unfolding test_iff by blast
  qed
qed

lemma todo_line_marked:
  "todo_line c (addedLines c ! i) i =
     (if has_todo_marker (addedLines c ! i) then [todo_finding c i] else [])"
  by (simp add: todo_line_def todo_finding_def test_TODO_PATTERN)

lemma checkTodos_map_filter:
  "checkTodos c =
     map (todo_finding c)
         (filter (\<lambda>i. has_todo_marker (addedLines c ! i)) [0..<length (addedLines c)])"
proof -
  have "checkTodos c =
        concat (map (\<lambda>i. todo_line c (addedLines c ! i) i) [0..<length (addedLines c)])"
    by (simp add: checkTodos_def forEach_idx_concat)
  then show ?thesis
    by (simp only: todo_line_marked concat_map_if)
qed

text \<open>
  C7. \<open>checkTodos\<close> reports, in order, one warning for each added line that contains a
  marker word (TODO, FIXME, HACK, XXX, TEMP, WTF, BUG in any letter case) which starts
  at a word boundary and is immediately followed by white space or a colon, and
  nothing for the other lines. No comment marker excludes a line: the comment line
  \<open>// TODO: fix this later\<close> gives a warning, and \<open>const todos = [];\<close> gives none.
\<close>

theorem checkTodos_findings:
  "checkTodos c =
     map (todo_finding c)
         (filter (\<lambda>i. has_todo_marker (addedLines c ! i)) [0..<length (addedLines c)])
   \<and> checkTodos \<lparr>addedLines = [''// TODO: fix this later''], addedLineNumbers = [3],
        isNewFile = False, filename = ''src/foo.ts'', sizeBytes = 1000\<rparr> =
       [\<lparr>rule = ''no-todo-in-changes'', severity = Warning,
         message = ''Unresolved marker in new code: // TODO: fix this later'',
         line = Some 3, file' = Some ''src/foo.ts''\<rparr>]
   \<and> checkTodos \<lparr>addedLines = [''const todos = [];''], addedLineNumbers = [1],
        isNewFile = False, filename = ''src/foo.ts'', sizeBytes = 1000\<rparr> = []"
proof -
  have ex1: "checkTodos \<lparr>addedLines = [''// TODO: fix this later''], addedLineNumbers = [3],
        isNewFile = False, filename = ''src/foo.ts'', sizeBytes = 1000\<rparr> =
       [\<lparr>rule = ''no-todo-in-changes'', severity = Warning,
         message = ''Unresolved marker in new code: // TODO: fix this later'',
         line = Some 3, file' = Some ''src/foo.ts''\<rparr>]"
    by code_simp
  have ex2: "checkTodos \<lparr>addedLines = [''const todos = [];''], addedLineNumbers = [1],
        isNewFile = False, filename = ''src/foo.ts'', sizeBytes = 1000\<rparr> = []"
    by code_simp
  from checkTodos_map_filter [of c] ex1 ex2 show ?thesis
    by (intro conjI)
qed

text \<open>
  On three lines: the first has the marker \<open>fixme\<close> after a space and before a colon,
  the second has \<open>todos\<close>, where no separator follows the marker, the third has
  \<open>XXX\<close> after a word character, at no word boundary.
\<close>

theorem checkTodos_findings_witness:
  "has_todo_marker ''  // fixme: later''
   \<and> \<not> has_todo_marker ''const todos = [];''
   \<and> \<not> has_todo_marker ''aXXX b''
   \<and> checkTodos \<lparr>addedLines = [''  // fixme: later'', ''const todos = [];'', ''aXXX b''],
        addedLineNumbers = [7, 8, 9], isNewFile = False, filename = ''a.py'', sizeBytes = 10\<rparr> =
       [\<lparr>rule = ''no-todo-in-changes'', severity = Warning,
         message = ''Unresolved marker in new code: // fixme: later'',
         line = Some 7, file' = Some ''a.py''\<rparr>]"
proof -
  let ?c = "\<lparr>addedLines = [''  // fixme: later'', ''const todos = [];'', ''aXXX b''],
        addedLineNumbers = [7, 8, 9], isNewFile = False, filename = ''a.py'', sizeBytes = 10\<rparr>"
  have r: "checkTodos ?c =
       [\<lparr>rule = ''no-todo-in-changes'', severity = Warning,
         message = ''Unresolved marker in new code: // fixme: later'',
         line = Some 7, file' = Some ''a.py''\<rparr>]"
    by code_simp
  have u: "[0..<length (addedLines ?c)] = [0, 1, 2]"
    by code_simp
  from checkTodos_findings [of ?c]
  have "checkTodos ?c = map (todo_finding ?c)
         (filter (\<lambda>i. has_todo_marker (addedLines ?c ! i)) [0..<length (addedLines ?c)])"
    by (rule conjunct1)
  then have "map (todo_finding ?c) (filter (\<lambda>i. has_todo_marker (addedLines ?c ! i)) [0, 1, 2]) =
       [\<lparr>rule = ''no-todo-in-changes'', severity = Warning,
         message = ''Unresolved marker in new code: // fixme: later'',
         line = Some 7, file' = Some ''a.py''\<rparr>]"
    by (simp only: r u)
  moreover have "todo_finding ?c 0 = \<lparr>rule = ''no-todo-in-changes'', severity = Warning,
         message = ''Unresolved marker in new code: // fixme: later'',
         line = Some 7, file' = Some ''a.py''\<rparr>"
    by code_simp
  moreover have "line (todo_finding ?c 1) = Some 8" "line (todo_finding ?c 2) = Some 9"
    by code_simp+
  ultimately have "has_todo_marker (addedLines ?c ! 0) \<and> \<not> has_todo_marker (addedLines ?c ! 1)
      \<and> \<not> has_todo_marker (addedLines ?c ! 2)"
    by (auto split: if_splits)
  with r show ?thesis by simp
qed

text \<open>
  C1: a source file gets one info finding when no transformed name that differs from
  the filename is in the project set; a transformation that leaves the filename as it
  is never matches the file itself. This fails on a tracked Python source file without
  any test file: none of the six transformed names both differs from the filename and
  is in the project set, but the four JS/TS transformations return the filename
  itself, which is in the set, and \<open>checkTestExists\<close> reports nothing. With an empty
  project set the finding is there.
\<close>

theorem checkTestExists_untested_python_file:
  "map (\<lambda>fn. fn ''src/foo.py'') TEST_NAMING_CONVENTIONS =
     [''src/foo.py'', ''src/foo.py'', ''src/foo.py'', ''src/foo.py'', ''src/foo_test.py'', ''src/test_foo.py'']
   \<and> checkTestExists \<lparr>addedLines = [], addedLineNumbers = [], isNewFile = False,
        filename = ''src/foo.py'', sizeBytes = 1000\<rparr> {''src/foo.py''} = []
   \<and> checkTestExists \<lparr>addedLines = [], addedLineNumbers = [], isNewFile = False,
        filename = ''src/foo.py'', sizeBytes = 1000\<rparr> {} =
       [\<lparr>rule = ''test-file-exists'', severity = Info,
         message = ''No test file found for foo.py'', line = None,
         file' = Some ''src/foo.py''\<rparr>]"
  by code_simp

text \<open>
  C4: every occurrence of \<open>&&\<close> or \<open>||\<close> in the added lines counts as a branch, and
  a warning is due when the count plus one exceeds the threshold. This fails on twenty
  added lines \<open>a && b\<close> in a TypeScript file with threshold 10, where 20 operators
  make 21 branches: the pattern is wrapped in \<open>\b\<close> and an operator between spaces
  is at no word boundary, so the count is 0 and \<open>checkComplexity\<close> reports nothing.
  The operator counts only where word characters touch it, as in \<open>a&&b\<close>.
\<close>

theorem checkComplexity_spaced_operators:
  "count_matches BRANCH_KEYWORDS None (joinLines (replicate 20 ''a && b'')) = 0
   \<and> checkComplexity \<lparr>addedLines = replicate 20 ''a && b'',
        addedLineNumbers = map int [1..<21], isNewFile = False,
        filename = ''src/foo.ts'', sizeBytes = 1000\<rparr> 10 = []
   \<and> count_matches BRANCH_KEYWORDS None ''a&&b'' = 1"
  by code_simp

end
